theory Spec2Isabelle
  imports Complex_Main "HOL-Library.Word" "HOL-Library.List_Lexorder"
begin

section \<open>Data model\<close>

text \<open>
  \<open>feature_selection.h\<close> defines one function template, \<open>incremental_selection\<close>,
  over a \<open>FeatureSet\<close> (in every use a \<open>std::set\<close> of features) and a \<open>Scorer\<close>
  (a function object from \<open>FeatureSet\<close> to \<open>double\<close>).

  \<^item> A \<open>FeatureSet\<close> is the list of its elements in iteration order: increasing and
    without duplicates. Every \<open>FeatureSet\<close> the function builds itself goes through
    \<open>insert\<close>, which keeps that form.
  \<^item> A score is a \<open>real\<close>. The function only compares scores and subtracts two of them,
    so the model idealises \<open>double\<close> arithmetic to exact arithmetic. A scorer is a total
    function: one that throws is outside the model.
  \<^item> \<open>unsigned int\<close> is a 32-bit word: \<open>i++\<close> and \<open>i+1\<close> wrap around.
\<close>

type_synonym 'a FeatureSet = "'a list"
type_synonym 'a Scorer = "'a FeatureSet \<Rightarrow> real"

subsection \<open>Operations of \<open>std::set\<close> and of \<open><algorithm>\<close>\<close>

text \<open>\<open>s.insert(first, last)\<close>: every element of the range is inserted at its place unless
  it is already there.\<close>

definition insert_range :: "'a::linorder list \<Rightarrow> 'a FeatureSet \<Rightarrow> 'a FeatureSet" where
  "insert_range xs s = fold insort_insert xs s"

text \<open>\<open>std::set_difference(a.begin(), a.end(), b.begin(), b.end(), std::inserter(out, out.begin()))\<close>:
  the elements of \<open>a\<close> that are not in \<open>b\<close> are inserted into \<open>out\<close>.\<close>

definition set_difference ::
  "'a::linorder FeatureSet \<Rightarrow> 'a FeatureSet \<Rightarrow> 'a FeatureSet \<Rightarrow> 'a FeatureSet" where
  "set_difference a b out = insert_range (filter (\<lambda>x. x \<notin> set b) a) out"

subsection \<open>Collaborators declared outside this header\<close>

text \<open>
  Modelled from the spec: \<open>powerset\<close> of \<open>opencog/util\<close>, called only as
  \<open>powerset(s, n, true)\<close>. The spec's contract of the combination generator:
  \<open>generate(set, size, exact)\<close> produces every subset of the given cardinality (when
  \<open>exact\<close> is true) with no duplicates. The result is a \<open>std::set<FeatureSet>\<close>, which a
  \<open>foreach\<close> walks in increasing (lexicographic) order; \<open>powerset s n\<close> is that walk.
\<close>

fun powerset :: "'a FeatureSet \<Rightarrow> nat \<Rightarrow> 'a FeatureSet list" where
  "powerset s 0 = [[]]"
| "powerset [] (Suc n) = []"
| "powerset (x # s) (Suc n) = map ((#) x) (powerset s n) @ powerset s (Suc n)"

text \<open>
  Modelled from the spec: \<open>has_empty_intersection\<close> of \<open>opencog/util\<close>. The spec's
  step 5b skips the candidates that intersect the current redundant-set.
\<close>

definition has_empty_intersection :: "'a FeatureSet \<Rightarrow> 'a FeatureSet \<Rightarrow> bool" where
  "has_empty_intersection fs red = (filter (\<lambda>x. x \<in> set red) fs = [])"

text \<open>
  Modelled from the spec: \<open>lru_cache\<close> of \<open>opencog/util/lru_cache.h\<close>. The spec's
  contract of the score cache: \<open>get_or_compute(key)\<close> memoises per key, has a bounded
  capacity and evicts the least recently used entry when the capacity is exceeded; it wraps
  the function given at construction.

  \<open>entries\<close> holds the cached pairs, the most recently used first. \<open>calls\<close> is the log
  of the arguments the wrapped scorer was really invoked on, the latest first (what a
  call-counting scorer would record).
\<close>

record 'a lru_cache =
  capacity :: nat
  entries :: "('a FeatureSet \<times> real) list"
  calls :: "'a FeatureSet list"

definition new_cache :: "nat \<Rightarrow> 'a lru_cache" where
  "new_cache n = \<lparr>capacity = n, entries = [], calls = []\<rparr>"

definition lru_call :: "'a Scorer \<Rightarrow> 'a FeatureSet \<Rightarrow> 'a lru_cache \<Rightarrow> real \<times> 'a lru_cache" where
  "lru_call scorer x c =
     (case map_of (entries c) x of
        Some v \<Rightarrow> (v, c\<lparr>entries := (x, v) # filter (\<lambda>e. fst e \<noteq> x) (entries c)\<rparr>)
      | None \<Rightarrow> (scorer x, c\<lparr>entries := take (capacity c) ((x, scorer x) # entries c),
                              calls := x # calls c\<rparr>))"

section \<open>\<open>incremental_selection\<close>\<close>

text \<open>The local variables that live across iterations: \<open>rel\<close>, \<open>res\<close> and the cache.\<close>

record 'a sel_state =
  rel :: "'a FeatureSet"
  res :: "'a FeatureSet"
  scorer_cache :: "'a lru_cache"

text \<open>
  Lines 72 to 74: \<open>foreach fs in fss: if (scorer_cache(fs) > threshold) rel.insert(fs.begin(), fs.end())\<close>.
\<close>

fun relevance_pass ::
  "'a::linorder Scorer \<Rightarrow> real \<Rightarrow> 'a FeatureSet list \<Rightarrow> 'a FeatureSet \<times> 'a lru_cache
     \<Rightarrow> 'a FeatureSet \<times> 'a lru_cache" where
  "relevance_pass scorer threshold [] (rl, c) = (rl, c)"
| "relevance_pass scorer threshold (fs # fss) (rl, c) =
     (let (v, c') = lru_call scorer fs c
      in relevance_pass scorer threshold fss
           (if v > threshold then insert_range fs rl else rl, c'))"

text \<open>
  Lines 83 to 86: \<open>score_diff = scorer_cache(fs) - scorer_cache(fs_without_f)\<close>. C++ does
  not fix which operand of \<open>-\<close> is evaluated first, and the two evaluations touch the
  cache; \<open>left_first\<close> is that choice.
\<close>

definition score_diff ::
  "bool \<Rightarrow> 'a Scorer \<Rightarrow> 'a FeatureSet \<Rightarrow> 'a \<Rightarrow> 'a lru_cache \<Rightarrow> real \<times> 'a lru_cache" where
  "score_diff left_first scorer fs f c =
     (let fs_without_f = remove1 f fs
      in if left_first
         then (let (a, c1) = lru_call scorer fs c;
                   (b, c2) = lru_call scorer fs_without_f c1
               in (a - b, c2))
         else (let (b, c1) = lru_call scorer fs_without_f c;
                   (a, c2) = lru_call scorer fs c1
               in (a - b, c2)))"

text \<open>
  Lines 82 to 91: the scan of one candidate \<open>fs\<close>; \<open>todo\<close> is the part of \<open>fs\<close> that is
  still to visit. The first feature whose score difference is below the threshold is
  put into \<open>red\<close>, and the scan stops (\<open>break\<close>).
\<close>

fun scan_candidate ::
  "bool \<Rightarrow> 'a::linorder Scorer \<Rightarrow> real \<Rightarrow> 'a FeatureSet \<Rightarrow> 'a list
     \<Rightarrow> 'a FeatureSet \<times> 'a lru_cache \<Rightarrow> 'a FeatureSet \<times> 'a lru_cache" where
  "scan_candidate left_first scorer threshold fs [] (red, c) = (red, c)"
| "scan_candidate left_first scorer threshold fs (f # todo) (red, c) =
     (let (d, c') = score_diff left_first scorer fs f c
      in if d < threshold then (insort_insert f red, c')
         else scan_candidate left_first scorer threshold fs todo (red, c'))"

text \<open>Lines 80 to 93: the loop over the candidates of the redundancy test.\<close>

fun redundancy_pass ::
  "bool \<Rightarrow> 'a::linorder Scorer \<Rightarrow> real \<Rightarrow> 'a FeatureSet list
     \<Rightarrow> 'a FeatureSet \<times> 'a lru_cache \<Rightarrow> 'a FeatureSet \<times> 'a lru_cache" where
  "redundancy_pass left_first scorer threshold [] (red, c) = (red, c)"
| "redundancy_pass left_first scorer threshold (fs # nrfss) (red, c) =
     redundancy_pass left_first scorer threshold nrfss
       (if has_empty_intersection fs red
        then scan_candidate left_first scorer threshold fs fs (red, c)
        else (red, c))"

text \<open>Lines 66 to 69: the candidates of the relevance test of iteration \<open>i\<close>.\<close>

definition candidates :: "'a::linorder FeatureSet \<Rightarrow> 'a FeatureSet \<Rightarrow> 32 word \<Rightarrow> 'a FeatureSet list" where
  "candidates features rl i = (let tf = set_difference features rl [] in powerset tf (unat i))"

text \<open>
  Lines 65 to 99: the body of the \<open>for\<close> loop. \<open>rel.empty()\<close> on line 71 only asks whether
  \<open>rel\<close> is empty and drops the answer, so it contributes nothing.
\<close>

definition iteration ::
  "bool \<Rightarrow> 'a::linorder FeatureSet \<Rightarrow> 'a Scorer \<Rightarrow> real \<Rightarrow> bool \<Rightarrow> 32 word
     \<Rightarrow> 'a sel_state \<Rightarrow> 'a sel_state" where
  "iteration left_first features scorer threshold remove_red i st =
     (let fss = candidates features (rel st) i;
          (rel', c1) = relevance_pass scorer threshold fss (rel st, scorer_cache st)
      in if remove_red
         then (let nrfss = powerset rel' (unat (i + 1));
                   (red, c2) = redundancy_pass left_first scorer threshold nrfss ([], c1)
               in \<lparr>rel = rel', res = set_difference rel' red (res st), scorer_cache = c2\<rparr>)
         else \<lparr>rel = rel', res = insert_range rel' (res st), scorer_cache = c1\<rparr>)"

text \<open>
  Line 64: \<open>for (unsigned int i = 1; i <= max_size; i++)\<close>. With \<open>max_size\<close> the largest
  \<open>unsigned int\<close> the test never fails, so the loop is a partial function: \<open>None\<close> is a
  call that does not return.
\<close>

partial_function (option) selection_loop ::
  "bool \<Rightarrow> 'a::linorder FeatureSet \<Rightarrow> 'a Scorer \<Rightarrow> real \<Rightarrow> 32 word \<Rightarrow> bool \<Rightarrow> 32 word
     \<Rightarrow> 'a sel_state \<Rightarrow> 'a sel_state option" where
  "selection_loop left_first features scorer threshold max_size remove_red i st =
     (if i \<le> max_size
      then selection_loop left_first features scorer threshold max_size remove_red (i + 1)
             (iteration left_first features scorer threshold remove_red i st)
      else Some st)"

declare selection_loop.simps [code]

text \<open>
  Line 58: the capacity of the cache,
  \<open>std::pow((double)features.size(), (int)max_size)\<close> converted to the size type of the
  cache. \<open>(int)max_size\<close> is \<open>sint max_size\<close>.

  \<^item> With a non-negative exponent the power is an exact \<open>double\<close> while it is below
    \<open>2 ^ 53\<close>, and the capacity is the power.
  \<^item> With a negative exponent, that is for \<open>max_size \<ge> 2 ^ 31\<close>, the power is \<open>1\<close>
    for one feature and a fraction below \<open>1\<close>, which converts to \<open>0\<close>, for two or more.
  \<^item> Everywhere else C++ does not fix the value: from \<open>2 ^ 53\<close> on the power is rounded
    by \<open>pow\<close>, beyond the range of the size type the conversion is undefined, and with
    no feature and a negative exponent the power is infinite. \<open>unfixed\<close> is the capacity
    the cache gets there, whatever it is.
\<close>

definition pow_capacity :: "nat \<Rightarrow> nat \<Rightarrow> 32 word \<Rightarrow> nat" where
  "pow_capacity unfixed n max_size =
     (if 0 \<le> sint max_size
      then (if int n ^ nat (sint max_size) < 2 ^ 53 then n ^ nat (sint max_size) else unfixed)
      else (if n = 0 then unfixed else if n = 1 then 1 else 0))"

text \<open>Lines 58 to 62: the state before the loop.\<close>

definition initial_state :: "nat \<Rightarrow> 'a FeatureSet \<Rightarrow> 32 word \<Rightarrow> 'a sel_state" where
  "initial_state unfixed features max_size =
     \<lparr>rel = [], res = [],
      scorer_cache = new_cache (pow_capacity unfixed (length features) max_size)\<rparr>"

text \<open>
  The whole call, with the final state of its local variables. \<open>left_first\<close> and
  \<open>unfixed\<close> are not parameters of the C++ function: they stand for what the
  implementation chose, the evaluation order in \<open>score_diff\<close> and the capacity in
  \<open>pow_capacity\<close>.
\<close>

definition incremental_selection_run ::
  "bool \<Rightarrow> nat \<Rightarrow> 'a::linorder FeatureSet \<Rightarrow> 'a Scorer \<Rightarrow> real \<Rightarrow> 32 word \<Rightarrow> bool
     \<Rightarrow> 'a sel_state option" where
  "incremental_selection_run left_first unfixed features scorer threshold max_size remove_red =
     selection_loop left_first features scorer threshold max_size remove_red 1
       (initial_state unfixed features max_size)"

text \<open>Line 101: \<open>return res\<close>.\<close>

definition incremental_selection ::
  "bool \<Rightarrow> nat \<Rightarrow> 'a::linorder FeatureSet \<Rightarrow> 'a Scorer \<Rightarrow> real \<Rightarrow> 32 word \<Rightarrow> bool
     \<Rightarrow> 'a FeatureSet option" where
  "incremental_selection left_first unfixed features scorer threshold max_size remove_red =
     map_option res
       (incremental_selection_run left_first unfixed features scorer threshold max_size remove_red)"

text \<open>
  The state after the loop body has run \<open>k\<close> times: the \<open>k\<close>-th run has \<open>i = k\<close> as an
  \<open>unsigned int\<close>.
\<close>

primrec state_after ::
  "bool \<Rightarrow> nat \<Rightarrow> 'a::linorder FeatureSet \<Rightarrow> 'a Scorer \<Rightarrow> real \<Rightarrow> 32 word \<Rightarrow> bool \<Rightarrow> nat
     \<Rightarrow> 'a sel_state" where
  "state_after left_first unfixed features scorer threshold max_size remove_red 0 =
     initial_state unfixed features max_size"
| "state_after left_first unfixed features scorer threshold max_size remove_red (Suc k) =
     iteration left_first features scorer threshold remove_red (of_nat (Suc k))
       (state_after left_first unfixed features scorer threshold max_size remove_red k)"

text \<open>
  The candidates that the relevance test of the \<open>k\<close>-th run of the loop body scores
  (\<open>fss\<close> on line 69), and the features that this run finds relevant: the members of
  the candidates that score above the threshold.
\<close>

definition tested_at ::
  "bool \<Rightarrow> nat \<Rightarrow> 'a::linorder FeatureSet \<Rightarrow> 'a Scorer \<Rightarrow> real \<Rightarrow> 32 word \<Rightarrow> bool \<Rightarrow> nat
     \<Rightarrow> 'a FeatureSet list" where
  "tested_at left_first unfixed features scorer threshold max_size remove_red k =
     candidates features
       (rel (state_after left_first unfixed features scorer threshold max_size remove_red (k - 1)))
       (of_nat k)"

definition confirmed_at ::
  "bool \<Rightarrow> nat \<Rightarrow> 'a::linorder FeatureSet \<Rightarrow> 'a Scorer \<Rightarrow> real \<Rightarrow> 32 word \<Rightarrow> bool \<Rightarrow> nat
     \<Rightarrow> 'a set" where
  "confirmed_at left_first unfixed features scorer threshold max_size remove_red k =
     \<Union> (set ` {fs \<in> set (tested_at left_first unfixed features scorer threshold max_size remove_red k).
                   threshold < scorer fs})"

section \<open>The selection without the cache\<close>

text \<open>
  The cache only stores values of the scorer, so every score the function reads is the
  scorer's own value. The functions below are the passes and the loop body with the scorer
  called directly; they are shown equal to the ones above and carry the proofs.
\<close>

text \<open>\<open>cache_ok\<close>: every pair in the cache is a key with the scorer's value for it.\<close>

definition cache_ok :: "'a Scorer \<Rightarrow> 'a lru_cache \<Rightarrow> bool" where
  "cache_ok scorer c = list_all (\<lambda>e. snd e = scorer (fst e)) (entries c)"

text \<open>The relevance test, the redundancy test, the loop body on \<open>(rel, res)\<close> and the
  pair \<open>(rel, res)\<close> after \<open>k\<close> runs of the body.\<close>

fun relevant ::
  "'a::linorder Scorer \<Rightarrow> real \<Rightarrow> 'a FeatureSet list \<Rightarrow> 'a FeatureSet \<Rightarrow> 'a FeatureSet" where
  "relevant scorer threshold [] rl = rl"
| "relevant scorer threshold (fs # fss) rl =
     relevant scorer threshold fss (if scorer fs > threshold then insert_range fs rl else rl)"

definition first_redundant :: "'a Scorer \<Rightarrow> real \<Rightarrow> 'a FeatureSet \<Rightarrow> 'a list \<Rightarrow> 'a option" where
  "first_redundant scorer threshold fs todo =
     find (\<lambda>f. scorer fs - scorer (remove1 f fs) < threshold) todo"

fun redundant ::
  "'a::linorder Scorer \<Rightarrow> real \<Rightarrow> 'a FeatureSet list \<Rightarrow> 'a FeatureSet \<Rightarrow> 'a FeatureSet" where
  "redundant scorer threshold [] red = red"
| "redundant scorer threshold (fs # nrfss) red =
     redundant scorer threshold nrfss
       (if has_empty_intersection fs red
        then (case first_redundant scorer threshold fs fs of
                None \<Rightarrow> red | Some f \<Rightarrow> insort_insert f red)
        else red)"

definition pure_iteration ::
  "'a::linorder FeatureSet \<Rightarrow> 'a Scorer \<Rightarrow> real \<Rightarrow> bool \<Rightarrow> 32 word
     \<Rightarrow> 'a FeatureSet \<times> 'a FeatureSet \<Rightarrow> 'a FeatureSet \<times> 'a FeatureSet" where
  "pure_iteration features scorer threshold remove_red i p =
     (let rel' = relevant scorer threshold (candidates features (fst p) i) (fst p)
      in (rel',
          if remove_red
          then set_difference rel'
                 (redundant scorer threshold (powerset rel' (unat (i + 1))) []) (snd p)
          else insert_range rel' (snd p)))"

primrec pure_state ::
  "'a::linorder FeatureSet \<Rightarrow> 'a Scorer \<Rightarrow> real \<Rightarrow> bool \<Rightarrow> nat
     \<Rightarrow> 'a FeatureSet \<times> 'a FeatureSet" where
  "pure_state features scorer threshold remove_red 0 = ([], [])"
| "pure_state features scorer threshold remove_red (Suc k) =
     pure_iteration features scorer threshold remove_red (of_nat (Suc k))
       (pure_state features scorer threshold remove_red k)"


section \<open>The loop returns unless \<open>max_size\<close> is the largest \<open>unsigned int\<close>\<close>

lemma unat_of_nat32: "n < 4294967296 \<Longrightarrow> unat (of_nat n :: 32 word) = n"
  by (simp add: unat_of_nat)

lemma selection_loop_from:
  assumes "max_size \<noteq> -1" and "k \<le> unat max_size"
  shows "selection_loop lf features scorer threshold max_size remove_red (of_nat (Suc k))
           (state_after lf oc features scorer threshold max_size remove_red k)
         = Some (state_after lf oc features scorer threshold max_size remove_red (unat max_size))"
  using assms(2)
proof (induction "unat max_size - k" arbitrary: k)
  case 0
  then have k: "k = unat max_size" by simp
  have "unat max_size \<noteq> unat (-1 :: 32 word)"
    using assms(1) by (simp only: word_unat_eq_iff[symmetric] not_False_eq_True)
  moreover have "unat max_size < 2 ^ 32"
    using unsigned_less[of max_size, where 'a=nat] by simp
  moreover have "unat (-1 :: 32 word) = 2 ^ 32 - 1"
    by (simp add: unsigned_minus_1_eq_mask mask_eq_exp_minus_1)
  ultimately have lt: "unat max_size < 2 ^ 32 - 1"
    by simp
  have "unat (of_nat (Suc k) :: 32 word) = Suc k"
    by (rule unat_of_nat32) (use lt k in simp)
  then have "\<not> (of_nat (Suc k) :: 32 word) \<le> max_size"
    using k by (simp only: word_le_nat_alt)
  then show ?case
    using k by (subst selection_loop.simps) simp
next
  case (Suc d)
  then have klt: "k < unat max_size" by simp
  have "unat max_size < 2 ^ 32" using unsigned_less[of max_size, where 'a=nat] by simp
  then have "unat (of_nat (Suc k) :: 32 word) = Suc k"
    by (intro unat_of_nat32) (use klt in simp)
  then have le: "(of_nat (Suc k) :: 32 word) \<le> max_size"
    using klt by (simp only: word_le_nat_alt)
  have step: "(of_nat (Suc k) :: 32 word) + 1 = of_nat (Suc (Suc k))" by simp
  have "selection_loop lf features scorer threshold max_size remove_red (of_nat (Suc k))
           (state_after lf oc features scorer threshold max_size remove_red k)
        = selection_loop lf features scorer threshold max_size remove_red (of_nat (Suc (Suc k)))
           (state_after lf oc features scorer threshold max_size remove_red (Suc k))"
    using le by (subst selection_loop.simps) (simp only: step if_True state_after.simps)
  also have "\<dots> = Some (state_after lf oc features scorer threshold max_size remove_red (unat max_size))"
    using Suc klt by (intro Suc.hyps(1)) auto
  finally show ?case .
qed

lemma selection_loop_never:
  "selection_loop lf features scorer threshold (-1) remove_red i st = None"
proof (cases "selection_loop lf features scorer threshold (-1) remove_red i st")
  case None then show ?thesis .
next
  case (Some y)
  have "max_size = -1 \<longrightarrow> False"
    if "selection_loop lf features scorer threshold max_size remove_red i st = Some y" for max_size
    using that
    by (induction rule: selection_loop.raw_induct[rotated 1, consumes 1]) (auto split: if_splits)
  with Some show ?thesis by blast
qed

lemma run_reaches:
  assumes "k \<le> unat max_size"
  shows "incremental_selection_run lf oc features scorer threshold max_size remove_red
           = selection_loop lf features scorer threshold max_size remove_red (of_nat (Suc k))
               (state_after lf oc features scorer threshold max_size remove_red k)"
  using assms
proof (induction k)
  case 0
  show ?case by (simp add: incremental_selection_run_def)
next
  case (Suc k)
  have "unat max_size < 2 ^ 32" using unsigned_less[of max_size, where 'a=nat] by simp
  then have "unat (of_nat (Suc k) :: 32 word) = Suc k"
    by (intro unat_of_nat32) (use Suc.prems in simp)
  then have le: "(of_nat (Suc k) :: 32 word) \<le> max_size"
    using Suc.prems by (simp only: word_le_nat_alt)
  have step: "(of_nat (Suc k) :: 32 word) + 1 = of_nat (Suc (Suc k))" by simp
  have "incremental_selection_run lf oc features scorer threshold max_size remove_red
          = selection_loop lf features scorer threshold max_size remove_red (of_nat (Suc k))
              (state_after lf oc features scorer threshold max_size remove_red k)"
    using Suc by simp
  also have "\<dots> = selection_loop lf features scorer threshold max_size remove_red
                     (of_nat (Suc (Suc k)))
                     (state_after lf oc features scorer threshold max_size remove_red (Suc k))"
    using le by (subst selection_loop.simps) (simp only: step if_True state_after.simps)
  finally show ?case .
qed

section \<open>The cache is transparent\<close>

lemma lru_call_value: "cache_ok scorer c \<Longrightarrow> fst (lru_call scorer x c) = scorer x"
  by (auto simp: lru_call_def cache_ok_def list_all_iff split: option.splits dest!: map_of_SomeD)

lemma lru_call_ok: "cache_ok scorer c \<Longrightarrow> cache_ok scorer (snd (lru_call scorer x c))"
  by (auto simp: lru_call_def cache_ok_def list_all_iff split: option.splits
           dest!: map_of_SomeD in_set_takeD)

text \<open>The other two parts of the cache's contract: a key that is cached is answered
  without the scorer, any other key with one invocation of it; and the cache stays
  within its capacity.\<close>

lemma lru_call_hit:
  "map_of (entries c) x = Some v \<Longrightarrow>
   fst (lru_call scorer x c) = v \<and> calls (snd (lru_call scorer x c)) = calls c"
  by (simp add: lru_call_def)

lemma lru_call_miss:
  "map_of (entries c) x = None \<Longrightarrow>
   fst (lru_call scorer x c) = scorer x \<and> calls (snd (lru_call scorer x c)) = x # calls c"
  by (simp add: lru_call_def)

lemma lru_call_bounded:
  assumes "length (entries c) \<le> capacity c"
  shows "length (entries (snd (lru_call scorer x c))) \<le> capacity (snd (lru_call scorer x c))"
proof (cases "map_of (entries c) x")
  case None
  then show ?thesis by (simp add: lru_call_def)
next
  case (Some v)
  then have "(x, v) \<in> set (entries c)" by (rule map_of_SomeD)
  then have "length (filter (\<lambda>e. fst e \<noteq> x) (entries c)) < length (entries c)"
    by (intro length_filter_less[of "(x, v)"]) simp_all
  with assms Some show ?thesis by (simp add: lru_call_def)
qed

lemma relevance_pass_pure:
  "cache_ok scorer c \<Longrightarrow>
     fst (relevance_pass scorer threshold fss (rl, c)) = relevant scorer threshold fss rl
     \<and> cache_ok scorer (snd (relevance_pass scorer threshold fss (rl, c)))"
proof (induction fss arbitrary: rl c)
  case Nil
  then show ?case by simp
next
  case (Cons fs fss)
  obtain v c' where call: "lru_call scorer fs c = (v, c')" by (cases "lru_call scorer fs c")
  with Cons.prems have "v = scorer fs" "cache_ok scorer c'"
    using lru_call_value[of scorer c fs] lru_call_ok[of scorer c fs] by simp_all
  with Cons.IH[of c'] call show ?case by simp
qed

lemma score_diff_pure:
  assumes "cache_ok scorer c"
  shows "fst (score_diff lf scorer fs f c) = scorer fs - scorer (remove1 f fs)"
    and "cache_ok scorer (snd (score_diff lf scorer fs f c))"
proof -
  obtain a c1 where 1: "lru_call scorer fs c = (a, c1)" by (cases "lru_call scorer fs c")
  obtain b c2 where 2: "lru_call scorer (remove1 f fs) c1 = (b, c2)"
    by (cases "lru_call scorer (remove1 f fs) c1")
  obtain b' d1 where 3: "lru_call scorer (remove1 f fs) c = (b', d1)"
    by (cases "lru_call scorer (remove1 f fs) c")
  obtain a' d2 where 4: "lru_call scorer fs d1 = (a', d2)" by (cases "lru_call scorer fs d1")
  have "a = scorer fs" "cache_ok scorer c1"
    using assms 1 lru_call_value[of scorer c fs] lru_call_ok[of scorer c fs] by simp_all
  moreover from this have "b = scorer (remove1 f fs)" "cache_ok scorer c2"
    using 2 lru_call_value[of scorer c1 "remove1 f fs"] lru_call_ok[of scorer c1 "remove1 f fs"]
    by simp_all
  moreover have "b' = scorer (remove1 f fs)" "cache_ok scorer d1"
    using assms 3 lru_call_value[of scorer c "remove1 f fs"] lru_call_ok[of scorer c "remove1 f fs"]
    by simp_all
  moreover from this have "a' = scorer fs" "cache_ok scorer d2"
    using 4 lru_call_value[of scorer d1 fs] lru_call_ok[of scorer d1 fs] by simp_all
  ultimately show "fst (score_diff lf scorer fs f c) = scorer fs - scorer (remove1 f fs)"
    and "cache_ok scorer (snd (score_diff lf scorer fs f c))"
    using 1 2 3 4 by (simp_all add: score_diff_def Let_def)
qed

lemma scan_candidate_pure:
  "cache_ok scorer c \<Longrightarrow>
     fst (scan_candidate lf scorer threshold fs todo (red, c))
       = (case first_redundant scorer threshold fs todo of
            None \<Rightarrow> red | Some f \<Rightarrow> insort_insert f red)
     \<and> cache_ok scorer (snd (scan_candidate lf scorer threshold fs todo (red, c)))"
proof (induction todo arbitrary: c)
  case Nil
  then show ?case by (simp add: first_redundant_def)
next
  case (Cons f todo)
  obtain d c' where sd: "score_diff lf scorer fs f c = (d, c')"
    by (cases "score_diff lf scorer fs f c")
  with Cons.prems have d: "d = scorer fs - scorer (remove1 f fs)" and ok: "cache_ok scorer c'"
    using score_diff_pure[of scorer c lf fs f] by simp_all
  show ?case
    using Cons.IH[OF ok] sd d ok by (simp add: first_redundant_def)
qed

lemma redundancy_pass_pure:
  "cache_ok scorer c \<Longrightarrow>
     fst (redundancy_pass lf scorer threshold nrfss (red, c))
       = redundant scorer threshold nrfss red
     \<and> cache_ok scorer (snd (redundancy_pass lf scorer threshold nrfss (red, c)))"
proof (induction nrfss arbitrary: red c)
  case Nil
  then show ?case by simp
next
  case (Cons fs nrfss)
  show ?case
  proof (cases "has_empty_intersection fs red")
    case True
    obtain red' c' where sc: "scan_candidate lf scorer threshold fs fs (red, c) = (red', c')"
      by (cases "scan_candidate lf scorer threshold fs fs (red, c)")
    with scan_candidate_pure[OF Cons.prems, of lf threshold fs fs red]
    have "red' = (case first_redundant scorer threshold fs fs of
                    None \<Rightarrow> red | Some f \<Rightarrow> insort_insert f red)" and "cache_ok scorer c'"
      by simp_all
    with Cons.IH[of c' red'] sc True show ?thesis by simp
  next
    case False
    with Cons.IH[OF Cons.prems, of red] show ?thesis by simp
  qed
qed

lemma iteration_pure:
  assumes "cache_ok scorer (scorer_cache st)"
  shows "rel (iteration lf features scorer threshold remove_red i st)
           = fst (pure_iteration features scorer threshold remove_red i (rel st, res st))"
    and "res (iteration lf features scorer threshold remove_red i st)
           = snd (pure_iteration features scorer threshold remove_red i (rel st, res st))"
    and "cache_ok scorer (scorer_cache (iteration lf features scorer threshold remove_red i st))"
proof -
  let ?fss = "candidates features (rel st) i"
  obtain rel' c1 where rp: "relevance_pass scorer threshold ?fss (rel st, scorer_cache st) = (rel', c1)"
    by (cases "relevance_pass scorer threshold ?fss (rel st, scorer_cache st)")
  with relevance_pass_pure[OF assms, of threshold ?fss "rel st"]
  have rel': "rel' = relevant scorer threshold ?fss (rel st)" and ok1: "cache_ok scorer c1"
    by simp_all
  let ?nrfss = "powerset rel' (unat (i + 1))"
  obtain red c2 where dp: "redundancy_pass lf scorer threshold ?nrfss ([], c1) = (red, c2)"
    by (cases "redundancy_pass lf scorer threshold ?nrfss ([], c1)")
  with redundancy_pass_pure[OF ok1, of lf threshold ?nrfss "[]"]
  have red: "red = redundant scorer threshold ?nrfss []" and ok2: "cache_ok scorer c2"
    by simp_all
  show "rel (iteration lf features scorer threshold remove_red i st)
           = fst (pure_iteration features scorer threshold remove_red i (rel st, res st))"
    using rp dp rel' by (simp add: iteration_def pure_iteration_def Let_def)
  show "res (iteration lf features scorer threshold remove_red i st)
           = snd (pure_iteration features scorer threshold remove_red i (rel st, res st))"
    using rp dp rel' red by (simp add: iteration_def pure_iteration_def Let_def)
  show "cache_ok scorer (scorer_cache (iteration lf features scorer threshold remove_red i st))"
    using rp dp ok1 ok2 by (simp add: iteration_def Let_def)
qed

lemma state_after_pure:
  "rel (state_after lf oc features scorer threshold max_size remove_red k)
     = fst (pure_state features scorer threshold remove_red k)
   \<and> res (state_after lf oc features scorer threshold max_size remove_red k)
     = snd (pure_state features scorer threshold remove_red k)
   \<and> cache_ok scorer (scorer_cache (state_after lf oc features scorer threshold max_size remove_red k))"
proof (induction k)
  case 0
  show ?case by (simp add: initial_state_def new_cache_def cache_ok_def)
next
  case (Suc k)
  then show ?case
    using iteration_pure[of scorer "state_after lf oc features scorer threshold max_size remove_red k"
                           lf features threshold remove_red "of_nat (Suc k)"]
    by simp
qed

section \<open>Sets of features\<close>

lemma set_insert_range: "set (insert_range xs s) = set xs \<union> set s"
  unfolding insert_range_def
  by (induction xs arbitrary: s) (auto simp: set_insort_insert)

lemma sorted_insert_range: "sorted s \<Longrightarrow> sorted (insert_range xs s)"
  unfolding insert_range_def
  by (induction xs arbitrary: s) (auto simp: sorted_insort_insert)

lemma distinct_insert_range: "distinct s \<Longrightarrow> distinct (insert_range xs s)"
  unfolding insert_range_def
  by (induction xs arbitrary: s) (auto simp: distinct_insort_insert)

lemma set_set_difference: "set (set_difference a b out) = (set a - set b) \<union> set out"
  by (auto simp: set_difference_def set_insert_range)

lemma set_relevant:
  "set (relevant scorer threshold fss rl)
     = set rl \<union> \<Union> (set ` {fs \<in> set fss. threshold < scorer fs})"
  by (induction fss arbitrary: rl) (auto simp: set_insert_range)

lemma powerset_one: "powerset s (Suc 0) = map (\<lambda>x. [x]) s"
  by (induction s) auto

lemma powerset_member: "fs \<in> set (powerset s n) \<Longrightarrow> set fs \<subseteq> set s \<and> length fs = n"
  by (induction s n arbitrary: fs rule: powerset.induct) fastforce+

lemma candidates_member:
  "fs \<in> set (candidates features rl i) \<Longrightarrow> set fs \<subseteq> set features - set rl"
  by (auto simp: candidates_def set_set_difference dest!: powerset_member)

lemma pure_iteration_rel_mono:
  "set (fst p) \<subseteq> set (fst (pure_iteration features scorer threshold remove_red i p))"
  by (auto simp: pure_iteration_def Let_def set_relevant)

lemma pure_iteration_res_mono:
  "set (snd p) \<subseteq> set (snd (pure_iteration features scorer threshold remove_red i p))"
  by (auto simp: pure_iteration_def Let_def set_insert_range set_set_difference)

lemma pure_iteration_rel_features:
  "set (fst p) \<subseteq> set features \<Longrightarrow>
   set (fst (pure_iteration features scorer threshold remove_red i p)) \<subseteq> set features"
  by (auto simp: pure_iteration_def Let_def set_relevant dest!: candidates_member)

lemma pure_iteration_res_rel:
  "set (snd p) \<subseteq> set (fst p) \<Longrightarrow>
   set (snd (pure_iteration features scorer threshold remove_red i p))
     \<subseteq> set (fst (pure_iteration features scorer threshold remove_red i p))"
  using pure_iteration_rel_mono[of p features scorer threshold remove_red i]
  by (auto simp: pure_iteration_def Let_def set_insert_range set_set_difference)

lemma pure_iteration_res_eq_rel:
  "set (snd p) = set (fst p) \<Longrightarrow>
   set (snd (pure_iteration features scorer threshold False i p))
     = set (fst (pure_iteration features scorer threshold False i p))"
  using pure_iteration_rel_mono[of p features scorer threshold False i]
  by (auto simp: pure_iteration_def Let_def set_insert_range)

lemma pure_iteration_rel_flag:
  "fst (pure_iteration features scorer threshold remove_red i p)
     = fst (pure_iteration features scorer threshold remove_red' i (fst p, q))"
  by (simp add: pure_iteration_def Let_def)

lemma pure_state_rel_flag:
  "fst (pure_state features scorer threshold remove_red k)
     = fst (pure_state features scorer threshold remove_red' k)"
proof (induction k)
  case 0
  show ?case by simp
next
  case (Suc k)
  show ?case
    using pure_iteration_rel_flag[of features scorer threshold remove_red "of_nat (Suc k)"
            "pure_state features scorer threshold remove_red k" remove_red'
            "snd (pure_state features scorer threshold remove_red' k)"] Suc
    by simp
qed

lemma pure_state_rel_features:
  "set (fst (pure_state features scorer threshold remove_red k)) \<subseteq> set features"
  by (induction k) (simp_all add: pure_iteration_rel_features)

lemma pure_state_res_rel:
  "set (snd (pure_state features scorer threshold remove_red k))
     \<subseteq> set (fst (pure_state features scorer threshold remove_red k))"
  by (induction k) (simp_all add: pure_iteration_res_rel)

lemma pure_state_res_eq_rel:
  "set (snd (pure_state features scorer threshold False k))
     = set (fst (pure_state features scorer threshold False k))"
  by (induction k) (simp_all add: pure_iteration_res_eq_rel)

lemma pure_state_res_mono:
  "j \<le> k \<Longrightarrow> set (snd (pure_state features scorer threshold remove_red j))
     \<subseteq> set (snd (pure_state features scorer threshold remove_red k))"
proof (induction k)
  case 0
  then show ?case by simp
next
  case (Suc k)
  show ?case
  proof (cases "j = Suc k")
    case True
    then show ?thesis by simp
  next
    case False
    with Suc have "set (snd (pure_state features scorer threshold remove_red j))
       \<subseteq> set (snd (pure_state features scorer threshold remove_red k))" by simp
    also have "\<dots> \<subseteq> set (snd (pure_state features scorer threshold remove_red (Suc k)))"
      using pure_iteration_res_mono by simp
    finally show ?thesis .
  qed
qed

lemma pure_state_rel_mono:
  "j \<le> k \<Longrightarrow> set (fst (pure_state features scorer threshold remove_red j))
     \<subseteq> set (fst (pure_state features scorer threshold remove_red k))"
proof (induction k)
  case 0
  then show ?case by simp
next
  case (Suc k)
  show ?case
  proof (cases "j = Suc k")
    case True
    then show ?thesis by simp
  next
    case False
    with Suc have "set (fst (pure_state features scorer threshold remove_red j))
       \<subseteq> set (fst (pure_state features scorer threshold remove_red k))" by simp
    also have "\<dots> \<subseteq> set (fst (pure_state features scorer threshold remove_red (Suc k)))"
      using pure_iteration_rel_mono by simp
    finally show ?thesis .
  qed
qed

lemma run_returns:
  "max_size \<noteq> -1 \<Longrightarrow>
   incremental_selection_run lf oc features scorer threshold max_size remove_red
     = Some (state_after lf oc features scorer threshold max_size remove_red (unat max_size))"
  using selection_loop_from[of max_size 0 lf features scorer threshold remove_red]
  by (simp add: incremental_selection_run_def)

lemma run_never:
  "incremental_selection_run lf oc features scorer threshold (-1) remove_red = None"
  by (simp add: incremental_selection_run_def selection_loop_never)

lemma selection_returns:
  "max_size \<noteq> -1 \<Longrightarrow>
   incremental_selection lf oc features scorer threshold max_size remove_red
     = Some (snd (pure_state features scorer threshold remove_red (unat max_size)))"
  by (simp add: incremental_selection_def run_returns state_after_pure)

lemma selection_never:
  "incremental_selection lf oc features scorer threshold (-1) remove_red = None"
  by (simp add: incremental_selection_def run_never)

lemma sorted_distinct_relevant:
  "sorted rl \<and> distinct rl \<Longrightarrow>
   sorted (relevant scorer threshold fss rl) \<and> distinct (relevant scorer threshold fss rl)"
  by (induction fss arbitrary: rl) (simp_all add: sorted_insert_range distinct_insert_range)

lemma sorted_distinct_pure_iteration:
  assumes "sorted (fst p) \<and> distinct (fst p)" and "sorted (snd p) \<and> distinct (snd p)"
  shows "sorted (fst (pure_iteration features scorer threshold remove_red i p))
         \<and> distinct (fst (pure_iteration features scorer threshold remove_red i p))
         \<and> sorted (snd (pure_iteration features scorer threshold remove_red i p))
         \<and> distinct (snd (pure_iteration features scorer threshold remove_red i p))"
  using sorted_distinct_relevant[OF assms(1), of scorer threshold "candidates features (fst p) i"]
        assms(2)
  by (cases remove_red)
     (simp_all add: pure_iteration_def Let_def set_difference_def sorted_insert_range
                    distinct_insert_range)

lemma sorted_distinct_pure_state:
  "sorted (fst (pure_state features scorer threshold remove_red k))
   \<and> distinct (fst (pure_state features scorer threshold remove_red k))
   \<and> sorted (snd (pure_state features scorer threshold remove_red k))
   \<and> distinct (snd (pure_state features scorer threshold remove_red k))"
proof (induction k)
  case 0
  show ?case by simp
next
  case (Suc k)
  then show ?case
    using sorted_distinct_pure_iteration[of "pure_state features scorer threshold remove_red k"
            features scorer threshold remove_red "of_nat (Suc k)"]
    by (simp only: pure_state.simps)
qed

lemma result_sorted_distinct:
  "incremental_selection lf oc features scorer threshold max_size remove_red = Some out
     \<Longrightarrow> sorted out \<and> distinct out"
  using sorted_distinct_pure_state[of features scorer threshold remove_red "unat max_size"]
  by (cases "max_size = -1") (auto simp: selection_never selection_returns)

section \<open>The cache while nothing is evicted\<close>









section \<open>The combination generator meets its contract\<close>

text \<open>\<open>powerset s n\<close> lists the sublists of \<open>s\<close> with \<open>n\<close> elements, each once; for
  a \<open>FeatureSet\<close> \<open>s\<close> these are the subsets of \<open>s\<close> of cardinality \<open>n\<close>, each
  again a \<open>FeatureSet\<close>.\<close>

lemma Nil_subseqs: "[] \<in> set (subseqs s)"
  by (induction s) (simp_all add: Let_def)

lemma powerset_subseqs: "set (powerset s n) = {ys \<in> set (subseqs s). length ys = n}"
  by (induction s n rule: powerset.induct) (auto simp: Let_def Nil_subseqs)

lemma distinct_powerset: "distinct s \<Longrightarrow> distinct (powerset s n)"
proof (induction s n rule: powerset.induct)
  case (3 x s n)
  have "set (map ((#) x) (powerset s n)) \<inter> set (powerset s (Suc n)) = {}"
    using 3(3) by (auto dest!: powerset_member)
  with 3 show ?case by (simp add: distinct_map)
qed simp_all

lemma powerset_sorted_distinct:
  "sorted s \<Longrightarrow> distinct s \<Longrightarrow> fs \<in> set (powerset s n) \<Longrightarrow> sorted fs \<and> distinct fs"
proof (induction s n arbitrary: fs rule: powerset.induct)
  case (3 x s n)
  from 3(5) consider ys where "fs = x # ys" "ys \<in> set (powerset s n)"
    | "fs \<in> set (powerset s (Suc n))" by auto
  then show ?case
  proof cases
    case 1
    with 3(1)[of ys] 3(3,4) powerset_member[of ys s n] show ?thesis by auto
  next
    case 2
    with 3(2)[of fs] 3(3,4) show ?thesis by simp
  qed
qed simp_all

text \<open>The candidates come in increasing order, lists compared lexicographically as
  \<open>std::set\<close> compares its elements.\<close>

lemma powerset_lex_sorted:
  "sorted s \<Longrightarrow> distinct s \<Longrightarrow> sorted (powerset s n) \<and> distinct (powerset s n)"
proof (induction s n rule: powerset.induct)
  case (3 x s n)
  have less: "x # ys < zs" if "ys \<in> set (powerset s n)" "zs \<in> set (powerset s (Suc n))" for ys zs
  proof -
    have m: "set zs \<subseteq> set s \<and> length zs = Suc n"
      using that(2) by (rule powerset_member)
    then obtain z zs' where zs: "zs = z # zs'" "z \<in> set s"
      by (auto simp: length_Suc_conv)
    with 3(3,4) have "x < z" by (auto simp: less_le)
    with zs show ?thesis by (simp add: Cons_less_Cons)
  qed
  have "sorted (map ((#) x) (powerset s n))"
    using 3(1,3,4) by (simp add: sorted_map)
  moreover have "sorted (powerset s (Suc n))" using 3(2,3,4) by simp
  ultimately have "sorted (map ((#) x) (powerset s n) @ powerset s (Suc n))"
    using less by (auto simp: sorted_append less_imp_le)
  with distinct_powerset[OF 3(4), of "Suc n"] show ?case by simp
qed simp_all

section \<open>Relevant features accumulate, redundant ones are tested strictly\<close>

lemma rel_state_after_Suc:
  "set (rel (state_after lf oc features scorer threshold max_size remove_red (Suc k)))
     = set (rel (state_after lf oc features scorer threshold max_size remove_red k))
       \<union> confirmed_at lf oc features scorer threshold max_size remove_red (Suc k)"
  using state_after_pure[of lf oc features scorer threshold max_size remove_red k]
        state_after_pure[of lf oc features scorer threshold max_size remove_red "Suc k"]
  by (simp add: pure_iteration_def Let_def set_relevant confirmed_at_def tested_at_def)

lemma rel_state_after_confirmed:
  "set (rel (state_after lf oc features scorer threshold max_size remove_red k))
     = (\<Union>j\<in>{1..k}. confirmed_at lf oc features scorer threshold max_size remove_red j)"
proof (induction k)
  case 0
  show ?case by (simp add: initial_state_def)
next
  case (Suc k)
  have "{1..Suc k} = insert (Suc k) {1..k}" by auto
  then show ?case
    using Suc rel_state_after_Suc[of lf oc features scorer threshold max_size remove_red k]
    by auto
qed

lemma set_redundant:
  "f \<in> set (redundant scorer threshold nrfss red) \<Longrightarrow>
   f \<in> set red \<or> (\<exists>fs\<in>set nrfss. f \<in> set fs \<and> scorer fs - scorer (remove1 f fs) < threshold)"
proof (induction nrfss arbitrary: red)
  case Nil
  then show ?case by simp
next
  case (Cons fs nrfss)
  let ?red' = "if has_empty_intersection fs red
        then (case first_redundant scorer threshold fs fs of
                None \<Rightarrow> red | Some f \<Rightarrow> insort_insert f red)
        else red"
  from Cons.prems have "f \<in> set (redundant scorer threshold nrfss ?red')" by simp
  from Cons.IH[OF this] consider "f \<in> set ?red'"
    | "\<exists>fs\<in>set nrfss. f \<in> set fs \<and> scorer fs - scorer (remove1 f fs) < threshold" by blast
  then show ?case
  proof cases
    case 1
    then show ?thesis
      by (auto simp: first_redundant_def set_insort_insert find_Some_iff
               split: if_splits option.splits)
  next
    case 2
    then show ?thesis by auto
  qed
qed

lemma singleton_at_threshold:
  assumes "scorer [f] = threshold"
  shows "f \<notin> set (fst (pure_state features scorer threshold remove_red (Suc 0)))"
  using assms
  by (auto simp: pure_iteration_def Let_def set_relevant candidates_def powerset_one)

section \<open>The empty pool\<close>

lemma powerset_Nil: "0 < n \<Longrightarrow> powerset [] n = []"
  by (cases n) simp_all

lemma iteration_empty_pool:
  assumes "rel st = []" and "0 < unat i"
  shows "iteration lf [] scorer threshold remove_red i st = st"
proof (cases "unat (i + 1)")
  case 0
  with assms show ?thesis
    by (simp add: iteration_def candidates_def set_difference_def insert_range_def powerset_Nil
                  has_empty_intersection_def)
next
  case (Suc n)
  with assms show ?thesis
    by (simp add: iteration_def candidates_def set_difference_def insert_range_def powerset_Nil)
qed

lemma state_after_empty_pool:
  "k < 2 ^ 32 \<Longrightarrow>
   state_after lf oc [] scorer threshold max_size remove_red k = initial_state oc [] max_size"
proof (induction k)
  case 0
  show ?case by simp
next
  case (Suc k)
  have 1: "unat (of_nat (Suc k) :: 32 word) = Suc k"
    by (rule unat_of_nat32) (use Suc.prems in simp)
  have st: "state_after lf oc [] scorer threshold max_size remove_red k = initial_state oc [] max_size"
    using Suc by simp
  have "iteration lf [] scorer threshold remove_red (of_nat (Suc k)) (initial_state oc [] max_size)
          = initial_state oc [] max_size"
    by (rule iteration_empty_pool) (simp_all only: 1 zero_less_Suc, simp add: initial_state_def)
  with st show ?case by (simp only: state_after.simps)
qed

lemma empty_pool_returns:
  assumes "max_size \<noteq> -1"
  shows "incremental_selection_run lf oc [] scorer threshold max_size remove_red
           = Some (initial_state oc [] max_size)"
    and "incremental_selection lf oc [] scorer threshold max_size remove_red = Some []"
    and "calls (scorer_cache (initial_state oc [] max_size)) = []"
proof -
  have "unat max_size < 2 ^ 32"
    using unsigned_less[of max_size, where 'a=nat] by simp
  then have "state_after lf oc [] scorer threshold max_size remove_red (unat max_size)
               = initial_state oc [] max_size"
    by (rule state_after_empty_pool)
  with assms show "incremental_selection_run lf oc [] scorer threshold max_size remove_red
           = Some (initial_state oc [] max_size)"
    by (simp add: run_returns)
  then show "incremental_selection lf oc [] scorer threshold max_size remove_red = Some []"
    by (simp add: incremental_selection_def initial_state_def)
  show "calls (scorer_cache (initial_state oc [] max_size)) = []"
    by (simp add: initial_state_def new_cache_def)
qed

lemma empty_pool_wraps:
  "incremental_selection_run lf oc [] scorer threshold (-1) remove_red
     = selection_loop lf [] scorer threshold (-1) remove_red 1
         (state_after lf oc [] scorer threshold (-1) remove_red (2 ^ 32))
   \<and> calls (scorer_cache (state_after lf oc [] scorer threshold (-1) remove_red (2 ^ 32))) = [[]]"
proof -
  have u: "unat (-1 :: 32 word) = 2 ^ 32 - 1"
    by (simp add: unsigned_minus_1_eq_mask mask_eq_exp_minus_1)
  have s: "(2 ^ 32 :: nat) = Suc (2 ^ 32 - 1)" by simp
  have z: "(of_nat (Suc (2 ^ 32 - 1)) :: 32 word) = 0" by simp
  have "incremental_selection_run lf oc [] scorer threshold (-1) remove_red
          = selection_loop lf [] scorer threshold (-1) remove_red (of_nat (Suc (2 ^ 32 - 1)))
              (state_after lf oc [] scorer threshold (-1) remove_red (2 ^ 32 - 1))"
    by (rule run_reaches) (simp only: u order_refl)
  also have "\<dots> = selection_loop lf [] scorer threshold (-1) remove_red 0
                     (state_after lf oc [] scorer threshold (-1) remove_red (2 ^ 32 - 1))"
    by (simp only: z)
  also have "\<dots> = selection_loop lf [] scorer threshold (-1) remove_red 1
                     (iteration lf [] scorer threshold remove_red 0
                        (state_after lf oc [] scorer threshold (-1) remove_red (2 ^ 32 - 1)))"
    by (subst selection_loop.simps) simp
  also have "iteration lf [] scorer threshold remove_red 0
               (state_after lf oc [] scorer threshold (-1) remove_red (2 ^ 32 - 1))
             = state_after lf oc [] scorer threshold (-1) remove_red (2 ^ 32)"
    by (subst (2) s, simp only: state_after.simps z)
  finally have a: "incremental_selection_run lf oc [] scorer threshold (-1) remove_red
     = selection_loop lf [] scorer threshold (-1) remove_red 1
         (state_after lf oc [] scorer threshold (-1) remove_red (2 ^ 32))" .
  have "state_after lf oc [] scorer threshold (-1) remove_red (2 ^ 32 - 1) = initial_state oc [] (-1)"
    by (rule state_after_empty_pool) simp
  then have "state_after lf oc [] scorer threshold (-1) remove_red (2 ^ 32)
          = iteration lf [] scorer threshold remove_red 0 (initial_state oc [] (-1))"
    by (subst s, simp only: state_after.simps z)
  also have "calls (scorer_cache \<dots>) = [[]]"
    by (cases remove_red)
       (simp_all add: iteration_def candidates_def set_difference_def insert_range_def
          initial_state_def new_cache_def lru_call_def has_empty_intersection_def Let_def
          split: prod.splits)
  finally show ?thesis using a by blast
qed

section \<open>The capacity of line 58\<close>

lemma pow_capacity_exact:
  "0 \<le> sint max_size \<Longrightarrow> int n ^ nat (sint max_size) < 2 ^ 53 \<Longrightarrow>
   pow_capacity oc n max_size = n ^ nat (sint max_size)"
  by (simp add: pow_capacity_def)

lemma pow_capacity_negative:
  "sint max_size < 0 \<Longrightarrow> 2 \<le> n \<Longrightarrow> pow_capacity oc n max_size = 0"
  by (simp add: pow_capacity_def)

section \<open>Without the redundancy test no set is scored twice\<close>







section \<open>Properties of \<open>incremental_selection\<close>\<close>

text \<open>
  Every call with \<open>max_size\<close> below the largest \<open>unsigned int\<close> returns
  (\<open>run_returns\<close>); with the largest value the loop test \<open>i <= max_size\<close> never
  fails and no call returns (\<open>run_never\<close>). The properties below say so wherever
  they speak of a returned set. They hold for either evaluation order and for every value
  of \<open>unfixed\<close>; in the instances with concrete inputs line 58 fixes the capacity, and
  the \<open>0\<close> given for \<open>unfixed\<close> plays no part.
\<close>

text \<open>
  C1. At the start of every iteration \<open>i\<close> the set \<open>rel\<close> is cleared, so that after
  the relevance test of iteration \<open>i\<close> it holds only features of size-\<open>i\<close> candidates
  of that iteration that score strictly above the threshold.

  The code does not do this: line 71 calls \<open>rel.empty()\<close>, which asks whether \<open>rel\<close>
  is empty, where \<open>rel.clear()\<close> would empty it. For the pool \<open>{1, 2}\<close>, a scorer
  that gives \<open>1\<close> to \<open>{1}\<close> and \<open>0\<close> to every other set, the threshold
  \<open>1/2\<close> and \<open>max_size = 2\<close>: iteration 1 leaves \<open>rel = {1}\<close>; iteration 2 has
  no candidate at all (\<open>tf = {2}\<close> has no subset of size 2), and \<open>rel\<close> is still
  \<open>{1}\<close> after it.
\<close>

theorem rel_not_cleared:
  "rel (state_after True 0 [1, 2 :: nat] (\<lambda>fs. if fs = [1] then 1 else 0) (1 / 2) 2 False 1) = [1]
   \<and> tested_at True 0 [1, 2 :: nat] (\<lambda>fs. if fs = [1] then 1 else 0) (1 / 2) 2 False 2 = []
   \<and> rel (state_after True 0 [1, 2 :: nat] (\<lambda>fs. if fs = [1] then 1 else 0) (1 / 2) 2 False 2) = [1]"
  by code_simp

text \<open>
  A consequence that shows in the result: with \<open>remove_red\<close> set, feature \<open>1\<close> is
  found redundant in iteration 1 and left out of \<open>res\<close>; iteration 2 finds the stale
  \<open>rel = {1, 2}\<close>, has nothing to test for redundancy, and adds both to \<open>res\<close>.
\<close>

lemma stale_rel_readmits:
  "incremental_selection True 0 [1, 2 :: nat] (\<lambda>fs. 1) (1 / 2) 1 True = Some [2]
   \<and> incremental_selection True 0 [1, 2 :: nat] (\<lambda>fs. 1) (1 / 2) 2 True = Some [1, 2]"
  by code_simp

text \<open>
  C2. With \<open>max_size = 1\<close> and \<open>remove_red = false\<close> the call returns, and the
  returned set is exactly the set of the features \<open>f\<close> of the pool whose singleton
  \<open>{f}\<close> scores strictly above the threshold, for every pool, scorer and threshold.
\<close>

theorem singleton_selection:
  "map_option set (incremental_selection left_first unfixed features scorer threshold 1 False)
     = Some {f \<in> set features. threshold < scorer [f]}"
proof -
  have "set (snd (pure_state features scorer threshold False (Suc 0)))
          = {f \<in> set features. threshold < scorer [f]}"
    by (auto simp: pure_iteration_def Let_def set_insert_range set_relevant candidates_def
                   powerset_one set_set_difference)
  then show ?thesis
    using selection_returns[of 1 left_first unfixed features scorer threshold False] by simp
qed

text \<open>
  C3. The relevance test and the redundancy test are strict. As far as the tests go: the
  relevance test adds to \<open>rel\<close> exactly the members of the candidates that score
  strictly above the threshold, so a candidate that scores the threshold itself marks
  nothing; a feature whose singleton scores exactly the threshold is not in \<open>rel\<close>
  after iteration 1, and not in the result of a call with \<open>max_size = 1\<close>; and a
  feature \<open>g\<close> is marked redundant only through a candidate \<open>fs\<close> with
  \<open>scorer fs - scorer (fs - {g})\<close> strictly below the threshold. The cache the tests
  start from is any cache that holds scorer values.
\<close>

theorem strict_tests:
  assumes "cache_ok scorer c"
  shows "set (fst (relevance_pass scorer threshold fss (rl, c)))
           = set rl \<union> \<Union> (set ` {fs \<in> set fss. threshold < scorer fs})
         \<and> (scorer [f] = threshold \<longrightarrow>
              f \<notin> set (rel (state_after lf oc features scorer threshold max_size remove_red 1))
              \<and> (\<exists>out. incremental_selection lf oc features scorer threshold 1 remove_red = Some out
                        \<and> f \<notin> set out))
         \<and> (\<forall>g \<in> set (fst (redundancy_pass lf scorer threshold nrfss ([], c))).
              \<exists>fs \<in> set nrfss. g \<in> set fs \<and> scorer fs - scorer (remove1 g fs) < threshold)"
proof -
  have 1: "set (fst (relevance_pass scorer threshold fss (rl, c)))
           = set rl \<union> \<Union> (set ` {fs \<in> set fss. threshold < scorer fs})"
    using relevance_pass_pure[OF assms, of threshold fss rl] by (simp add: set_relevant)
  have 2: "f \<notin> set (rel (state_after lf oc features scorer threshold max_size remove_red 1))
              \<and> (\<exists>out. incremental_selection lf oc features scorer threshold 1 remove_red = Some out
                        \<and> f \<notin> set out)" if eq: "scorer [f] = threshold"
  proof -
    have a: "f \<notin> set (fst (pure_state features scorer threshold remove_red (Suc 0)))"
      using eq by (rule singleton_at_threshold)
    then have b: "f \<notin> set (snd (pure_state features scorer threshold remove_red (Suc 0)))"
      using pure_state_res_rel[of features scorer threshold remove_red "Suc 0"] by blast
    have "rel (state_after lf oc features scorer threshold max_size remove_red (Suc 0))
            = fst (pure_state features scorer threshold remove_red (Suc 0))"
      using state_after_pure[of lf oc features scorer threshold max_size remove_red "Suc 0"] by blast
    with a b show ?thesis
      using selection_returns[of 1 lf oc features scorer threshold remove_red] by simp
  qed
  have 3: "\<exists>fs \<in> set nrfss. g \<in> set fs \<and> scorer fs - scorer (remove1 g fs) < threshold"
    if "g \<in> set (fst (redundancy_pass lf scorer threshold nrfss ([], c)))" for g
    using that redundancy_pass_pure[OF assms, of lf threshold nrfss "[]"]
          set_redundant[of g scorer threshold nrfss "[]"] by simp
  from 1 2 3 show ?thesis by blast
qed

theorem strict_tests_witness:
  "cache_ok (\<lambda>fs. if fs = [2 :: nat] then 1 / 2 else (1 :: real)) (new_cache 2)
   \<and> set (fst (relevance_pass (\<lambda>fs. if fs = [2 :: nat] then 1 / 2 else (1 :: real)) (1 / 2) [[1], [2]]
              ([], new_cache 2))) = {1}
   \<and> (\<lambda>fs. if fs = [2 :: nat] then 1 / 2 else (1 :: real)) [2] = 1 / 2
   \<and> 2 \<notin> set (rel (state_after True 0 [1, 2] (\<lambda>fs. if fs = [2 :: nat] then 1 / 2 else (1 :: real)) (1 / 2) 1 False 1))
   \<and> incremental_selection True 0 [1, 2] (\<lambda>fs. if fs = [2 :: nat] then 1 / 2 else (1 :: real)) (1 / 2) 1 False
       = Some [1]
   \<and> fst (redundancy_pass True (\<lambda>fs. if fs = [2 :: nat] then 1 / 2 else (1 :: real)) (1 / 2) [[1, 2]]
            ([], new_cache 2)) = [2]
   \<and> (\<lambda>fs. if fs = [2 :: nat] then 1 / 2 else (1 :: real)) [1, 2]
       - (\<lambda>fs. if fs = [2 :: nat] then 1 / 2 else (1 :: real)) (remove1 1 [1, 2]) = 1 / 2
   \<and> (\<lambda>fs. if fs = [2 :: nat] then 1 / 2 else (1 :: real)) [1, 2]
       - (\<lambda>fs. if fs = [2 :: nat] then 1 / 2 else (1 :: real)) (remove1 2 [1, 2]) < 1 / 2"
proof -
  let ?sc = "\<lambda>fs. if fs = [2 :: nat] then 1 / 2 else (1 :: real)"
  have ok: "cache_ok ?sc (new_cache 2)"
    by (simp add: cache_ok_def new_cache_def)
  have at: "?sc [2] = 1 / 2" by simp
  have sel: "incremental_selection True 0 [1, 2] ?sc (1 / 2) 1 False = Some [1]"
    by code_simp
  have red: "fst (redundancy_pass True ?sc (1 / 2) [[1, 2]] ([], new_cache 2)) = [2]"
    by code_simp
  note t = strict_tests[OF ok, of "1 / 2" "[[1], [2]]" "[]" 2 True 0 "[1, 2]" 1 False "[[1, 2]]"]
  from t have "set (fst (relevance_pass ?sc (1 / 2) [[1], [2]] ([], new_cache 2)))
                  = set [] \<union> \<Union> (set ` {fs \<in> set [[1], [2]]. 1 / 2 < ?sc fs})"
    by (rule conjunct1)
  moreover have "{fs \<in> set [[1], [2 :: nat]]. 1 / 2 < ?sc fs} = {[1]}"
    by auto
  ultimately have "set (fst (relevance_pass ?sc (1 / 2) [[1], [2]] ([], new_cache 2))) = {1}"
    by (simp only: image_insert image_empty list.set Union_insert Union_empty Un_empty_left
                   Un_empty_right)
  moreover from t at
  have "2 \<notin> set (rel (state_after True 0 [1, 2] ?sc (1 / 2) 1 False 1))" by blast
  moreover have "?sc [1, 2] - ?sc (remove1 1 [1, 2]) = 1 / 2"
    and "?sc [1, 2] - ?sc (remove1 2 [1, 2]) < 1 / 2"
    by simp_all
  ultimately show ?thesis
    using ok at sel red by blast
qed

text \<open>
  The sentence of C3 that such a feature is excluded from the result does not hold for
  \<open>max_size > 1\<close>: a later iteration can select the feature through a larger
  candidate. Here both singletons score the threshold \<open>1/2\<close>, the pair scores
  \<open>1\<close>, and the call with \<open>max_size = 2\<close> returns both features.
\<close>

theorem threshold_singleton_selected_later:
  "(\<lambda>fs. if fs = [1, 2 :: nat] then 1 else 1 / 2) [1] = (1 / 2 :: real)
   \<and> incremental_selection True 0 [1, 2 :: nat] (\<lambda>fs. if fs = [1, 2] then 1 else 1 / 2) (1 / 2) 2 False
       = Some [1, 2]"
  by code_simp

text \<open>
  C4. For the same pool, scorer, threshold and \<open>max_size\<close>, the result with
  \<open>remove_red = true\<close> is a subset of the result with \<open>remove_red = false\<close>:
  both calls return and the sets are so related, or \<open>max_size\<close> is the largest
  \<open>unsigned int\<close> and neither call returns.
\<close>

theorem remove_red_subset:
  "(max_size = -1
      \<and> incremental_selection lf oc features scorer threshold max_size True = None
      \<and> incremental_selection lf' oc' features scorer threshold max_size False = None)
   \<or> (\<exists>r1 r2. incremental_selection lf oc features scorer threshold max_size True = Some r1
           \<and> incremental_selection lf' oc' features scorer threshold max_size False = Some r2
           \<and> set r1 \<subseteq> set r2)"
proof (cases "max_size = -1")
  case True
  then show ?thesis by (simp add: selection_never)
next
  case False
  have "set (snd (pure_state features scorer threshold True (unat max_size)))
          \<subseteq> set (fst (pure_state features scorer threshold True (unat max_size)))"
    by (rule pure_state_res_rel)
  also have "\<dots> = set (fst (pure_state features scorer threshold False (unat max_size)))"
    by (simp add: pure_state_rel_flag[of features scorer threshold True _ False])
  also have "\<dots> = set (snd (pure_state features scorer threshold False (unat max_size)))"
    by (simp add: pure_state_res_eq_rel)
  finally show ?thesis
    using False by (simp add: selection_returns)
qed

theorem remove_red_subset_witness:
  "incremental_selection True 0 [1, 2 :: nat] (\<lambda>fs. 1) (1 / 2) 1 True = Some [2]
   \<and> incremental_selection True 0 [1, 2 :: nat] (\<lambda>fs. 1) (1 / 2) 1 False = Some [1, 2]
   \<and> set [2 :: nat] \<subseteq> set [1, 2]"
proof -
  have a: "incremental_selection True 0 [1, 2 :: nat] (\<lambda>fs. 1) (1 / 2) 1 True = Some [2]"
    by code_simp
  have b: "incremental_selection True 0 [1, 2 :: nat] (\<lambda>fs. 1) (1 / 2) 1 False = Some [1, 2]"
    by code_simp
  from remove_red_subset[of 1 True 0 "[1, 2 :: nat]" "\<lambda>fs. 1" "1 / 2" True 0] a b
  have "set [2 :: nat] \<subseteq> set [1, 2]" by simp
  with a b show ?thesis by blast
qed

text \<open>
  C5. With \<open>remove_red = false\<close> the result grows with \<open>max_size\<close>: for
  \<open>m \<le> m'\<close> every feature of the result for \<open>m\<close> is in the result for \<open>m'\<close>
  (both calls return, unless \<open>m'\<close> is the largest \<open>unsigned int\<close>, for which the
  call does not return).
\<close>

theorem max_size_monotone:
  assumes "m \<le> m'"
  shows "(m' = -1 \<and> incremental_selection lf' oc' features scorer threshold m' False = None)
         \<or> (\<exists>r r'. incremental_selection lf oc features scorer threshold m False = Some r
               \<and> incremental_selection lf' oc' features scorer threshold m' False = Some r'
               \<and> set r \<subseteq> set r')"
proof (cases "m' = -1")
  case True
  then show ?thesis by (simp add: selection_never)
next
  case False
  have "m \<noteq> -1"
  proof
    assume "m = -1"
    with assms have "-1 \<le> m'" by simp
    moreover have "m' \<le> -1" by (rule word_n1_ge)
    ultimately have "m' = -1" by (rule order_antisym[rotated])
    with False show False by simp
  qed
  moreover from assms have "unat m \<le> unat m'" by (simp add: word_le_nat_alt)
  ultimately show ?thesis
    using False pure_state_res_mono[of "unat m" "unat m'" features scorer threshold False]
    by (simp add: selection_returns)
qed

theorem max_size_monotone_witness:
  "(1 :: 32 word) \<le> 2
   \<and> incremental_selection True 0 [1, 2, 3 :: nat]
        (\<lambda>fs. if fs = [1] then 1 else if fs = [2, 3] then 1 else 0) (1 / 2) 1 False = Some [1]
   \<and> incremental_selection True 0 [1, 2, 3 :: nat]
        (\<lambda>fs. if fs = [1] then 1 else if fs = [2, 3] then 1 else 0) (1 / 2) 2 False = Some [1, 2, 3]
   \<and> set [1 :: nat] \<subseteq> set [1, 2, 3]"
proof -
  let ?sc = "\<lambda>fs. if fs = [1 :: nat] then 1 else if fs = [2, 3] then 1 else (0 :: real)"
  have le: "(1 :: 32 word) \<le> 2" by simp
  have a: "incremental_selection True 0 [1, 2, 3 :: nat] ?sc (1 / 2) 1 False = Some [1]"
    by code_simp
  have b: "incremental_selection True 0 [1, 2, 3 :: nat] ?sc (1 / 2) 2 False = Some [1, 2, 3]"
    by code_simp
  from max_size_monotone[OF le, where lf = True and lf' = True and oc = 0 and oc' = 0 and features = "[1, 2, 3 :: nat]"
         and scorer = ?sc and threshold = "1 / 2"] a b
  have "set [1 :: nat] \<subseteq> set [1, 2, 3]" by simp
  with le a b show ?thesis by blast
qed

text \<open>
  C6. In every iteration the candidates of the relevance test are subsets of
  \<open>tf\<close>, and \<open>tf\<close> is the pool without every feature that an earlier iteration
  found relevant: a feature found relevant once is not tested for relevance again.
  The iterations are counted by the runs of the loop body (\<open>tested_at\<close>,
  \<open>confirmed_at\<close>).
\<close>

theorem candidates_from_unconfirmed:
  "set (set_difference features
          (rel (state_after lf oc features scorer threshold max_size remove_red (i - 1))) [])
     = set features - (\<Union>j\<in>{1..<i}. confirmed_at lf oc features scorer threshold max_size remove_red j)
   \<and> tested_at lf oc features scorer threshold max_size remove_red i
     = powerset (set_difference features
          (rel (state_after lf oc features scorer threshold max_size remove_red (i - 1))) [])
        (unat (of_nat i :: 32 word))
   \<and> (\<forall>fs \<in> set (tested_at lf oc features scorer threshold max_size remove_red i).
        set fs \<subseteq> set features
          - (\<Union>j\<in>{1..<i}. confirmed_at lf oc features scorer threshold max_size remove_red j))"
proof -
  have eq: "{1..i - 1} = {1..<i}" by auto
  have rl: "set (rel (state_after lf oc features scorer threshold max_size remove_red (i - 1)))
              = (\<Union>j\<in>{1..<i}. confirmed_at lf oc features scorer threshold max_size remove_red j)"
    using rel_state_after_confirmed[of lf oc features scorer threshold max_size remove_red "i - 1"]
    by (simp only: eq)
  have 1: "set (set_difference features
          (rel (state_after lf oc features scorer threshold max_size remove_red (i - 1))) [])
     = set features - (\<Union>j\<in>{1..<i}. confirmed_at lf oc features scorer threshold max_size remove_red j)"
    by (simp only: set_set_difference rl) simp
  have 2: "tested_at lf oc features scorer threshold max_size remove_red i
     = powerset (set_difference features
          (rel (state_after lf oc features scorer threshold max_size remove_red (i - 1))) [])
        (unat (of_nat i :: 32 word))"
    by (simp add: tested_at_def candidates_def)
  have 3: "set fs \<subseteq> set features
          - (\<Union>j\<in>{1..<i}. confirmed_at lf oc features scorer threshold max_size remove_red j)"
    if "fs \<in> set (tested_at lf oc features scorer threshold max_size remove_red i)" for fs
    using that candidates_member[of fs features
        "rel (state_after lf oc features scorer threshold max_size remove_red (i - 1))" "of_nat i"]
    by (simp only: tested_at_def rl)
  from 1 2 3 show ?thesis by blast
qed

theorem candidates_from_unconfirmed_witness:
  "tested_at True 0 [1, 2, 3 :: nat]
     (\<lambda>fs. if fs = [1] then 1 else if fs = [2, 3] then 1 else 0) (1 / 2) 2 False 2 = [[2, 3]]
   \<and> [2, 3] \<in> set (tested_at True 0 [1, 2, 3 :: nat]
     (\<lambda>fs. if fs = [1] then 1 else if fs = [2, 3] then 1 else 0) (1 / 2) 2 False 2)
   \<and> set [2, 3 :: nat] \<subseteq> set [1, 2, 3]
        - (\<Union>j\<in>{1..<2}. confirmed_at True 0 [1, 2, 3 :: nat]
             (\<lambda>fs. if fs = [1] then 1 else if fs = [2, 3] then 1 else 0) (1 / 2) 2 False j)"
proof -
  let ?sc = "\<lambda>fs. if fs = [1 :: nat] then 1 else if fs = [2, 3] then 1 else (0 :: real)"
  have a: "tested_at True 0 [1, 2, 3 :: nat] ?sc (1 / 2) 2 False 2 = [[2, 3]]"
    by code_simp
  then have b: "[2, 3] \<in> set (tested_at True 0 [1, 2, 3 :: nat] ?sc (1 / 2) 2 False 2)"
    by simp
  from candidates_from_unconfirmed[of "[1, 2, 3 :: nat]" True 0 ?sc "1 / 2" 2 False 2] b
  have "set [2, 3 :: nat] \<subseteq> set [1, 2, 3]
        - (\<Union>j\<in>{1..<2}. confirmed_at True 0 [1, 2, 3 :: nat] ?sc (1 / 2) 2 False j)"
    by blast
  with a b show ?thesis by blast
qed

text \<open>
  C7. With the empty pool the call returns the empty set and the scorer is never invoked,
  for any threshold, \<open>max_size\<close> and \<open>remove_red\<close>.

  This holds for every \<open>max_size\<close> below the largest \<open>unsigned int\<close>
  (\<open>empty_pool_returns\<close>). With \<open>max_size = UINT_MAX\<close> the test \<open>i <= max_size\<close>
  of the loop never fails: the call does not return, and when \<open>i\<close> has wrapped around
  to \<open>0\<close> the empty set is the one candidate of size \<open>0\<close> and the scorer is invoked on
  it (\<open>empty_pool_wraps\<close>).
\<close>

theorem empty_pool_max_unsigned:
  "incremental_selection_run lf oc [] scorer threshold (-1) remove_red = None
   \<and> incremental_selection lf oc [] scorer threshold (-1) remove_red = None"
  by (simp add: run_never selection_never)

text \<open>
  C8. Throughout a call \<open>res\<close> is a subset of the pool and only grows: what is in
  \<open>res\<close> after \<open>j\<close> iterations is in \<open>res\<close> after every later iteration, and in
  the returned set.
\<close>

theorem res_grows_within_features:
  "set (res (state_after lf oc features scorer threshold max_size remove_red k)) \<subseteq> set features
   \<and> (j \<le> k \<longrightarrow>
        set (res (state_after lf oc features scorer threshold max_size remove_red j))
          \<subseteq> set (res (state_after lf oc features scorer threshold max_size remove_red k)))
   \<and> (k \<le> unat max_size \<longrightarrow>
        (max_size = -1
           \<and> incremental_selection lf oc features scorer threshold max_size remove_red = None)
        \<or> (\<exists>out. incremental_selection lf oc features scorer threshold max_size remove_red = Some out
               \<and> set (res (state_after lf oc features scorer threshold max_size remove_red k))
                   \<subseteq> set out))"
proof -
  have "set (snd (pure_state features scorer threshold remove_red k)) \<subseteq> set features"
    using pure_state_res_rel[of features scorer threshold remove_red k]
          pure_state_rel_features[of features scorer threshold remove_red k] by blast
  then show ?thesis
    using pure_state_res_mono[of j k features scorer threshold remove_red]
          pure_state_res_mono[of k "unat max_size" features scorer threshold remove_red]
    by (cases "max_size = -1") (simp_all add: state_after_pure selection_returns selection_never)
qed

theorem res_grows_within_features_witness:
  "(1 :: nat) \<le> 2 \<and> (2 :: 32 word) \<noteq> -1 \<and> (2 :: nat) \<le> unat (2 :: 32 word)
   \<and> res (state_after True 0 [1, 2, 3 :: nat]
             (\<lambda>fs. if fs = [1] then 1 else if fs = [2, 3] then 1 else 0) (1 / 2) 2 False 1) = [1]
   \<and> res (state_after True 0 [1, 2, 3 :: nat]
             (\<lambda>fs. if fs = [1] then 1 else if fs = [2, 3] then 1 else 0) (1 / 2) 2 False 2) = [1, 2, 3]
   \<and> incremental_selection True 0 [1, 2, 3 :: nat]
        (\<lambda>fs. if fs = [1] then 1 else if fs = [2, 3] then 1 else 0) (1 / 2) 2 False = Some [1, 2, 3]
   \<and> set [1 :: nat] \<subseteq> set [1, 2, 3]"
proof -
  let ?sc = "\<lambda>fs. if fs = [1 :: nat] then 1 else if fs = [2, 3] then 1 else (0 :: real)"
  have le: "(1 :: nat) \<le> 2" by simp
  have ne: "(2 :: 32 word) \<noteq> -1" by simp
  have k: "(2 :: nat) \<le> unat (2 :: 32 word)" by simp
  have a: "res (state_after True 0 [1, 2, 3 :: nat] ?sc (1 / 2) 2 False 1) = [1]"
    by code_simp
  have b: "res (state_after True 0 [1, 2, 3 :: nat] ?sc (1 / 2) 2 False 2) = [1, 2, 3]"
    by code_simp
  have c: "incremental_selection True 0 [1, 2, 3 :: nat] ?sc (1 / 2) 2 False = Some [1, 2, 3]"
    by code_simp
  from res_grows_within_features[of True 0 "[1, 2, 3 :: nat]" ?sc "1 / 2" 2 False 2 1] le a b
  have "set [1 :: nat] \<subseteq> set [1, 2, 3]" by simp
  with le ne k a b c show ?thesis by blast
qed




text \<open>
  C10. The function is deterministic: two calls with the same pool, scorer, threshold,
  \<open>max_size\<close> and \<open>remove_red\<close> give the same result. Each call builds its own cache,
  and the candidates are walked in the order of the sets; the one choice the language
  leaves open, the order in which the operands of the subtraction are evaluated, does
  not change the result (nor whether the call returns).
\<close>

theorem selection_deterministic:
  "incremental_selection lf oc features scorer threshold max_size remove_red
     = incremental_selection lf' oc' features scorer threshold max_size remove_red"
  by (cases "max_size = -1") (simp_all add: selection_never selection_returns)

end
